theory Spec2Isabelle
  imports Complex_Main "HOL-Library.Word"
begin

section \<open>The measurement loop of \<^verbatim>\<open>examples/kinematics.cpp\<close>\<close>

text \<open>
  The program reads a log line by line, splits each line at single spaces, and
  depending on the first token propagates the filter with IMU data, sets the
  filter's contact state, or corrects the filter with kinematic measurements.

  Conventions of the embedding:
  \<^item> a value of type \<^verbatim>\<open>double\<close> is the \<^typ>\<open>real\<close> number it denotes; infinities and
    NaN have no counterpart;
  \<^item> what the program computes with library code that is not part of it is a
    parameter of the model, the record \<open>lib\<close> below: the conversions
    \<^verbatim>\<open>std::stod\<close> and \<^verbatim>\<open>std::stoi\<close>, the subtraction of two \<^verbatim>\<open>double\<close> values, which
    rounds, and Eigen's \<^verbatim>\<open>normalize\<close> and \<^verbatim>\<open>toRotationMatrix\<close>. Comparisons of
    \<^verbatim>\<open>double\<close> values and copies of them are exact and are written out;
  \<^item> \<^verbatim>\<open>assert\<close> is enabled: a failed assertion aborts the program;
  \<^item> the filter (class \<^verbatim>\<open>InEKF\<close>) is represented by the sequence of calls it
    receives;
  \<^item> \<^verbatim>\<open>measurement.size()\<close> is a 64-bit unsigned integer, so \<^verbatim>\<open>size()-2\<close> wraps.
\<close>

subsection \<open>Errors\<close>

datatype error =
    MalformedRecordError  \<comment> \<open>a failed \<^verbatim>\<open>assert\<close> on the number of fields\<close>
  | NumericParseError     \<comment> \<open>\<^verbatim>\<open>stod\<close> or \<^verbatim>\<open>stoi\<close> threw\<close>
  | OutOfBoundsRead       \<comment> \<open>\<^verbatim>\<open>measurement[i]\<close> with \<^verbatim>\<open>i >= measurement.size()\<close>\<close>

definition bind_res :: "error + 'a \<Rightarrow> ('a \<Rightarrow> error + 'b) \<Rightarrow> error + 'b" where
  "bind_res r f = (case r of Inl e \<Rightarrow> Inl e | Inr v \<Rightarrow> f v)"

text \<open>Evaluates a sequence of fallible reads in order; the first failure ends it.\<close>

fun collect :: "(error + 'a) list \<Rightarrow> error + 'a list" where
  "collect [] = Inr []"
| "collect (r # rs) =
     (case r of
        Inl e \<Rightarrow> Inl e
      | Inr v \<Rightarrow> (case collect rs of Inl e \<Rightarrow> Inl e | Inr vs \<Rightarrow> Inr (v # vs)))"

subsection \<open>Library functions\<close>

record quaternion =
  qw :: real
  qx :: real
  qy :: real
  qz :: real

type_synonym Vector3d = "real \<times> real \<times> real"
type_synonym Matrix3d = "Vector3d \<times> Vector3d \<times> Vector3d"  \<comment> \<open>the three rows\<close>

text \<open>
  The library code the loop calls. \<open>stod\<close> and \<open>stoi\<close> answer \<open>None\<close> where the
  C++ functions throw (\<^verbatim>\<open>std::invalid_argument\<close>, \<^verbatim>\<open>std::out_of_range\<close>).
  \<open>minus_double a b\<close> is the \<^verbatim>\<open>double\<close> that \<^verbatim>\<open>a - b\<close> evaluates to, which is the
  difference of the two numbers rounded. \<open>normalize\<close> and \<open>toRotationMatrix\<close>
  are the member functions of \<^verbatim>\<open>Eigen::Quaternion<double>\<close>.
\<close>

record library =
  stod :: "string \<Rightarrow> real option"
  stoi :: "string \<Rightarrow> 32 word option"
  minus_double :: "real \<Rightarrow> real \<Rightarrow> real"
  normalize :: "quaternion \<Rightarrow> quaternion"
  toRotationMatrix :: "quaternion \<Rightarrow> Matrix3d"

subsection \<open>Tokens\<close>

text \<open>
  \<^verbatim>\<open>boost::split(measurement, line, boost::is_any_of(" "))\<close> with the default
  \<^verbatim>\<open>token_compress_off\<close>: every single space separates two tokens, adjacent
  spaces give empty tokens, and the empty line gives one empty token.
\<close>

fun boost_split :: "string \<Rightarrow> string list" where
  "boost_split [] = [[]]"
| "boost_split (c # cs) =
     (if c = CHR '' '' then [] # boost_split cs
      else (case boost_split cs of
              [] \<Rightarrow> [[c]]
            | tok # toks \<Rightarrow> (c # tok) # toks))"

text \<open>\<^verbatim>\<open>stod(measurement[i])\<close> and \<^verbatim>\<open>stoi(measurement[i])\<close>.\<close>

definition stod_at :: "library \<Rightarrow> string list \<Rightarrow> nat \<Rightarrow> error + real" where
  "stod_at lib measurement i =
     (if i < length measurement
      then (case stod lib (measurement ! i) of
              None \<Rightarrow> Inl NumericParseError
            | Some v \<Rightarrow> Inr v)
      else Inl OutOfBoundsRead)"

definition stoi_at :: "library \<Rightarrow> string list \<Rightarrow> nat \<Rightarrow> error + 32 word" where
  "stoi_at lib measurement i =
     (if i < length measurement
      then (case stoi lib (measurement ! i) of
              None \<Rightarrow> Inl NumericParseError
            | Some v \<Rightarrow> Inr v)
      else Inl OutOfBoundsRead)"

subsection \<open>Program state and filter interface\<close>

type_synonym matrix = "real list list"  \<comment> \<open>the list of rows; \<^verbatim>\<open>M(j,k)\<close> is \<open>M ! j ! k\<close>\<close>

datatype filter_call =
    Propagate "real list" real
  | setContacts "(32 word \<times> bool) list"
  | CorrectKinematics "(32 word \<times> matrix \<times> matrix) list"

record state =
  t :: real
  t_prev :: real
  imu_measurement :: "real list"
  imu_measurement_prev :: "real list"
  filter_calls :: "filter_call list"

text \<open>
  The literal \<^verbatim>\<open>1e-6\<close> denotes the \<^verbatim>\<open>double\<close> nearest to \<open>1 / 1000000\<close>, which is
  \<open>4722366482869645 / 2 ^ 72\<close> and lies just below it; the next \<^verbatim>\<open>double\<close>,
  \<open>4722366482869646 / 2 ^ 72\<close>, lies above it. So a \<^verbatim>\<open>double\<close> exceeds the
  literal exactly when it exceeds \<open>1 / 1000000\<close>.
\<close>

definition DT_MIN :: real where
  "DT_MIN = 1 / 1000000"

definition DT_MAX :: real where
  "DT_MAX = 1"

definition initial :: state where
  "initial =
     \<lparr>t = 0, t_prev = 0,
      imu_measurement = [0, 0, 0, 0, 0, 0],
      imu_measurement_prev = [0, 0, 0, 0, 0, 0],
      filter_calls = []\<rparr>"

text \<open>\<^verbatim>\<open>measurement.size()-2\<close> in \<^verbatim>\<open>size_t\<close> arithmetic.\<close>

definition size_minus_2 :: "string list \<Rightarrow> 64 word" where
  "size_minus_2 measurement = word_of_nat (length measurement) - 2"

subsection \<open>IMU records\<close>

text \<open>\<^verbatim>\<open>double dt = t - t_prev\<close> is the rounded difference \<open>minus_double\<close>.\<close>

definition handle_IMU :: "library \<Rightarrow> string list \<Rightarrow> state \<Rightarrow> error + state" where
  "handle_IMU lib measurement s =
     (if size_minus_2 measurement \<noteq> 6 then Inl MalformedRecordError
      else
        bind_res (stod_at lib measurement 1) (\<lambda>tv.
        bind_res (collect [stod_at lib measurement 2,
                           stod_at lib measurement 3,
                           stod_at lib measurement 4,
                           stod_at lib measurement 5,
                           stod_at lib measurement 6,
                           stod_at lib measurement 7]) (\<lambda>imu.
          let dt = minus_double lib tv (t_prev s) in
          Inr (s\<lparr>t := tv,
                 imu_measurement := imu,
                 filter_calls :=
                   (if dt > DT_MIN \<and> dt < DT_MAX
                    then filter_calls s @ [Propagate (imu_measurement_prev s) dt]
                    else filter_calls s)\<rparr>))))"

subsection \<open>CONTACT records\<close>

text \<open>
  The loop \<^verbatim>\<open>for (int i=2; i<measurement.size(); i+=2)\<close>;
  \<^verbatim>\<open>bool(stod(...))\<close> is true exactly for a value different from zero.
\<close>

function read_contacts ::
  "library \<Rightarrow> string list \<Rightarrow> nat \<Rightarrow> (32 word \<times> bool) list
     \<Rightarrow> error + (32 word \<times> bool) list" where
  "read_contacts lib measurement i contacts =
     (if i < length measurement then
        (case stoi_at lib measurement i of
           Inl e \<Rightarrow> Inl e
         | Inr ident \<Rightarrow>
             (case stod_at lib measurement (i + 1) of
                Inl e \<Rightarrow> Inl e
              | Inr d \<Rightarrow>
                  read_contacts lib measurement (i + 2)
                    (contacts @ [(ident, d \<noteq> 0)])))
      else Inr contacts)"
  by pat_completeness auto
termination
  by (relation "measure (\<lambda>(lib, measurement, i, contacts). length measurement - i)")
     auto

definition handle_CONTACT :: "library \<Rightarrow> string list \<Rightarrow> state \<Rightarrow> error + state" where
  "handle_CONTACT lib measurement s =
     (if size_minus_2 measurement mod 2 \<noteq> 0 then Inl MalformedRecordError
      else
        bind_res (stod_at lib measurement 1) (\<lambda>tv.
        bind_res (read_contacts lib measurement 2 []) (\<lambda>contacts.
          Inr (s\<lparr>t := tv,
                 filter_calls := filter_calls s @ [setContacts contacts]\<rparr>))))"

subsection \<open>KINEMATIC records\<close>

definition Identity4 :: matrix where
  "Identity4 = [[1, 0, 0, 0], [0, 1, 0, 0], [0, 0, 1, 0], [0, 0, 0, 1]]"

text \<open>The rows of a 3 by 3 matrix as lists.\<close>

fun rows3 :: "Matrix3d \<Rightarrow> matrix" where
  "rows3 ((a, b, c), (d, e, f), (g, h, i)) = [[a, b, c], [d, e, f], [g, h, i]]"

text \<open>
  \<^verbatim>\<open>H.block<3,3>(0,0) = R\<close> and \<^verbatim>\<open>H.block<3,1>(0,3) = p\<close>: the first three rows of
  \<open>H\<close> get new entries in columns 0 to 2, respectively in column 3; the rest
  of \<open>H\<close> stays.
\<close>

definition set_block33 :: "matrix \<Rightarrow> matrix \<Rightarrow> matrix" where
  "set_block33 H R =
     map (\<lambda>j. if j < 3 then take 3 (R ! j) @ drop 3 (H ! j) else H ! j) [0..<4]"

definition set_block31 :: "matrix \<Rightarrow> real list \<Rightarrow> matrix" where
  "set_block31 H p =
     map (\<lambda>j. if j < 3 then (H ! j)[3 := p ! j] else H ! j) [0..<4]"

text \<open>The constructor \<^verbatim>\<open>Eigen::Quaternion<double>(w, x, y, z)\<close> on tokens 1 to 4.\<close>

definition read_quaternion :: "library \<Rightarrow> string list \<Rightarrow> nat \<Rightarrow> error + quaternion" where
  "read_quaternion lib measurement i =
     bind_res (stod_at lib measurement (i + 1)) (\<lambda>w.
     bind_res (stod_at lib measurement (i + 2)) (\<lambda>x.
     bind_res (stod_at lib measurement (i + 3)) (\<lambda>y.
     bind_res (stod_at lib measurement (i + 4)) (\<lambda>z.
       Inr \<lparr>qw = w, qx = x, qy = y, qz = z\<rparr>))))"

definition read_position :: "library \<Rightarrow> string list \<Rightarrow> nat \<Rightarrow> error + real list" where
  "read_position lib measurement i =
     collect [stod_at lib measurement (i + 5),
              stod_at lib measurement (i + 6),
              stod_at lib measurement (i + 7)]"

text \<open>
  The two nested loops over \<open>j\<close> and \<open>k\<close> with
  \<^verbatim>\<open>Cov(j,k) = stod(measurement[i+8 + j*6+k])\<close>.
\<close>

definition read_Cov :: "library \<Rightarrow> string list \<Rightarrow> nat \<Rightarrow> error + matrix" where
  "read_Cov lib measurement i =
     collect (map (\<lambda>j. collect (map (\<lambda>k. stod_at lib measurement (i + 8 + j * 6 + k))
                                 [0..<6]))
                [0..<6])"

text \<open>
  One pass through the body of the loop over the entries. \<open>H\<close> is declared
  before the loop, so the matrix of the previous pass comes in and the new one
  goes out.
\<close>

definition kinematic_entry ::
  "library \<Rightarrow> string list \<Rightarrow> nat \<Rightarrow> matrix
     \<Rightarrow> error + (matrix \<times> (32 word \<times> matrix \<times> matrix))" where
  "kinematic_entry lib measurement i H =
     bind_res (stoi_at lib measurement i) (\<lambda>ident.
     bind_res (read_quaternion lib measurement i) (\<lambda>q0.
       let q = normalize lib q0 in
       bind_res (read_position lib measurement i) (\<lambda>p.
         let H1 = set_block33 H (rows3 (toRotationMatrix lib q));
             H2 = set_block31 H1 p
         in bind_res (read_Cov lib measurement i) (\<lambda>Cov.
              Inr (H2, (ident, H2, Cov))))))"

function read_kinematics ::
  "library \<Rightarrow> string list \<Rightarrow> nat \<Rightarrow> matrix
     \<Rightarrow> (32 word \<times> matrix \<times> matrix) list
     \<Rightarrow> error + (32 word \<times> matrix \<times> matrix) list" where
  "read_kinematics lib measurement i H measured_kinematics =
     (if i < length measurement then
        (case kinematic_entry lib measurement i H of
           Inl e \<Rightarrow> Inl e
         | Inr (H', entry) \<Rightarrow>
             read_kinematics lib measurement (i + 44) H'
               (measured_kinematics @ [entry]))
      else Inr measured_kinematics)"
  by pat_completeness auto
termination
  by (relation "measure (\<lambda>(lib, measurement, i, H, ms). length measurement - i)")
     auto

definition handle_KINEMATIC :: "library \<Rightarrow> string list \<Rightarrow> state \<Rightarrow> error + state" where
  "handle_KINEMATIC lib measurement s =
     (if size_minus_2 measurement mod 44 \<noteq> 0 then Inl MalformedRecordError
      else
        bind_res (stod_at lib measurement 1) (\<lambda>tv.
        bind_res (read_kinematics lib measurement 2 Identity4 []) (\<lambda>ms.
          Inr (s\<lparr>t := tv,
                 filter_calls := filter_calls s @ [CorrectKinematics ms]\<rparr>))))"

text \<open>
  The tuple that one pass pushes for the entry with identifier \<open>ident\<close> when
  token \<open>k\<close> of the entry holds the number \<open>a k\<close>.
\<close>

abbreviation kin_tuple ::
  "library \<Rightarrow> 32 word \<Rightarrow> (nat \<Rightarrow> real) \<Rightarrow> 32 word \<times> matrix \<times> matrix" where
  "kin_tuple lib ident a \<equiv>
     (ident,
      set_block31
        (set_block33 Identity4
           (rows3 (toRotationMatrix lib
                     (normalize lib \<lparr>qw = a 1, qx = a 2, qy = a 3, qz = a 4\<rparr>))))
        [a 5, a 6, a 7],
      map (\<lambda>j. map (\<lambda>k. a (8 + j * 6 + k)) [0..<6]) [0..<6])"

subsection \<open>The loop\<close>

text \<open>The part of the loop body that depends on the tag.\<close>

definition handle_measurement :: "library \<Rightarrow> string list \<Rightarrow> state \<Rightarrow> error + state" where
  "handle_measurement lib measurement s =
     (case measurement of
        [] \<Rightarrow> Inl OutOfBoundsRead
      | tag # _ \<Rightarrow>
          if tag = ''IMU'' then handle_IMU lib measurement s
          else if tag = ''CONTACT'' then handle_CONTACT lib measurement s
          else if tag = ''KINEMATIC'' then handle_KINEMATIC lib measurement s
          else Inr s)"

text \<open>Stores the previous timestamp and measurement at the end of the body.\<close>

definition store_previous :: "state \<Rightarrow> state" where
  "store_previous s = s\<lparr>t_prev := t s, imu_measurement_prev := imu_measurement s\<rparr>"

definition loop_body :: "library \<Rightarrow> state \<Rightarrow> string \<Rightarrow> error + state" where
  "loop_body lib s line =
     bind_res (handle_measurement lib (boost_split line) s)
       (\<lambda>s'. Inr (store_previous s'))"

text \<open>\<^verbatim>\<open>while (getline(infile, line))\<close> over the lines of the file.\<close>

fun run :: "library \<Rightarrow> state \<Rightarrow> string list \<Rightarrow> error + state" where
  "run lib s [] = Inr s"
| "run lib s (line # lines) =
     (case loop_body lib s line of
        Inl e \<Rightarrow> Inl e
      | Inr s' \<Rightarrow> run lib s' lines)"

text \<open>
  The invariant at the head of the loop: the previous timestamp and sample
  equal the current ones.
\<close>

definition stored :: "state \<Rightarrow> bool" where
  "stored s \<longleftrightarrow> t_prev s = t s \<and> imu_measurement_prev s = imu_measurement s"

subsection \<open>A library for running the model\<close>

text \<open>
  The theorems below hold for every \<open>lib\<close>. To run the model on the lines of
  a log, \<open>exact_library\<close> reads decimal numbers and computes without rounding.
  It gives what the program computes wherever the numbers read and the
  results are \<^verbatim>\<open>double\<close> values, as for the lines it is applied to below, whose
  numbers are small integers and halves.

  \<open>dec_stod\<close> and \<open>dec_stoi\<close> read decimal numbers the way the library
  functions do: leading white space is skipped, a sign may follow, then
  decimal digits (for \<open>dec_stod\<close> with an optional fraction and an optional
  decimal exponent); what comes after the number is ignored, and a token
  without a digit is refused. Hexadecimal numbers, \<^verbatim>\<open>inf\<close>, \<^verbatim>\<open>nan\<close> and the range
  and rounding of \<^verbatim>\<open>double\<close> are not covered; \<open>dec_stoi\<close> refuses a value
  outside the range of a 32-bit \<^verbatim>\<open>int\<close>.
\<close>

definition isspace :: "char \<Rightarrow> bool" where
  "isspace c = (c \<in> set [CHR '' '', CHR 0x09, CHR 0x0A, CHR 0x0B, CHR 0x0C, CHR 0x0D])"

definition isdigit :: "char \<Rightarrow> bool" where
  "isdigit c = (c \<in> set ''0123456789'')"

definition digits_value :: "string \<Rightarrow> nat" where
  "digits_value ds = foldl (\<lambda>a c. 10 * a + (of_char c - 48)) 0 ds"

definition read_sign :: "string \<Rightarrow> bool \<times> string" where
  "read_sign s =
     (case s of
        [] \<Rightarrow> (False, s)
      | c # cs \<Rightarrow>
          if c = CHR ''-'' then (True, cs)
          else if c = CHR ''+'' then (False, cs)
          else (False, s))"

definition read_exponent :: "string \<Rightarrow> int" where
  "read_exponent s =
     (case s of
        [] \<Rightarrow> 0
      | c # cs \<Rightarrow>
          if c = CHR ''e'' \<or> c = CHR ''E'' then
            (case read_sign cs of
               (neg, ds) \<Rightarrow>
                 let e = takeWhile isdigit ds in
                 if e = [] then 0
                 else if neg then - int (digits_value e) else int (digits_value e))
          else 0)"

definition dec_stod :: "string \<Rightarrow> real option" where
  "dec_stod str =
     (case read_sign (dropWhile isspace str) of
        (neg, s) \<Rightarrow>
          let ip = takeWhile isdigit s;
              r = dropWhile isdigit s;
              fp = (case r of
                      [] \<Rightarrow> []
                    | c # cs \<Rightarrow> if c = CHR ''.'' then takeWhile isdigit cs else []);
              r' = (case r of
                      [] \<Rightarrow> []
                    | c # cs \<Rightarrow> if c = CHR ''.'' then dropWhile isdigit cs else r)
          in if ip = [] \<and> fp = [] then None
             else
               let m = real (digits_value (ip @ fp)) / 10 ^ length fp;
                   e = read_exponent r';
                   v = (if e \<ge> 0 then m * 10 ^ nat e else m / 10 ^ nat (- e))
               in Some (if neg then - v else v))"

definition dec_stoi :: "string \<Rightarrow> 32 word option" where
  "dec_stoi str =
     (case read_sign (dropWhile isspace str) of
        (neg, s) \<Rightarrow>
          let ds = takeWhile isdigit s in
          if ds = [] then None
          else
            let v = (if neg then - int (digits_value ds) else int (digits_value ds))
            in if - (2 ^ 31) \<le> v \<and> v < 2 ^ 31 then Some (word_of_int v) else None)"

text \<open>
  Eigen's \<^verbatim>\<open>squaredNorm()\<close>, \<^verbatim>\<open>norm()\<close>, \<^verbatim>\<open>normalize()\<close> and \<^verbatim>\<open>toRotationMatrix()\<close> on a
  quaternion, computed without rounding. In \<^verbatim>\<open>normalize()\<close> (Eigen 3.3 and later)
  the coefficients are divided by the norm when the squared norm is positive
  and are left as they are otherwise. On \<open>0 0 0 0\<close> and on \<open>1 0 0 0\<close> every
  step is exact in \<^verbatim>\<open>double\<close>, too.
\<close>

definition squaredNorm :: "quaternion \<Rightarrow> real" where
  "squaredNorm q = qw q * qw q + qx q * qx q + qy q * qy q + qz q * qz q"

definition norm_q :: "quaternion \<Rightarrow> real" where
  "norm_q q = sqrt (squaredNorm q)"

definition real_normalize :: "quaternion \<Rightarrow> quaternion" where
  "real_normalize q =
     (let z = squaredNorm q in
      if z > 0
      then \<lparr>qw = qw q / sqrt z, qx = qx q / sqrt z, qy = qy q / sqrt z, qz = qz q / sqrt z\<rparr>
      else q)"

definition real_toRotationMatrix :: "quaternion \<Rightarrow> Matrix3d" where
  "real_toRotationMatrix q =
     (let tx = 2 * qx q; ty = 2 * qy q; tz = 2 * qz q;
          twx = tx * qw q; twy = ty * qw q; twz = tz * qw q;
          txx = tx * qx q; txy = ty * qx q; txz = tz * qx q;
          tyy = ty * qy q; tyz = tz * qy q; tzz = tz * qz q
      in ((1 - (tyy + tzz), txy - twz, txz + twy),
          (txy + twz, 1 - (txx + tzz), tyz - twx),
          (txz - twy, tyz + twx, 1 - (txx + tyy))))"

definition exact_library :: library where
  "exact_library =
     \<lparr>stod = dec_stod, stoi = dec_stoi, minus_double = (\<lambda>a b. a - b),
      normalize = real_normalize, toRotationMatrix = real_toRotationMatrix\<rparr>"

lemmas dec_defs =
  exact_library_def dec_stod_def dec_stoi_def read_sign_def read_exponent_def isspace_def
  isdigit_def digits_value_def

lemmas body_defs =
  loop_body_def handle_measurement_def handle_IMU_def handle_CONTACT_def
  handle_KINEMATIC_def bind_res_def stod_at_def stoi_at_def size_minus_2_def
  store_previous_def

declare read_contacts.simps [simp del]
declare read_kinematics.simps [simp del]

section \<open>Properties\<close>

subsection \<open>Tokens and field counts\<close>

lemma boost_split_not_Nil: "boost_split line \<noteq> []"
  by (induction line) (auto split: list.splits)

lemma collect_Inr: "collect (map (\<lambda>x. Inr (f x)) xs) = Inr (map f xs)"
  by (induction xs) auto

lemma unat_size_minus_2:
  assumes "2 \<le> length m" "length m < 2 ^ 64"
  shows "unat (size_minus_2 m) = length m - 2"
proof -
  have "size_minus_2 m = word_of_nat (length m - 2)"
    using assms(1) by (simp add: size_minus_2_def)
  moreover have "length m - 2 < 2 ^ 64"
    using assms(2) by simp
  ultimately show ?thesis
    by (simp add: unat_of_nat)
qed

text \<open>With fewer than two tokens \<^verbatim>\<open>size()-2\<close> wraps, and every assertion fails.\<close>

lemma size_minus_2_short:
  "length m < 2 \<Longrightarrow> size_minus_2 m \<noteq> 6 \<and> size_minus_2 m mod 44 \<noteq> 0"
proof -
  assume "length m < 2"
  then consider "length m = 0" | "length m = 1" by linarith
  then show ?thesis
    by cases (simp_all add: size_minus_2_def)
qed

lemma size_minus_2_eq_6:
  assumes "length m < 2 ^ 64"
  shows "size_minus_2 m = 6 \<longleftrightarrow> length m = 8"
proof (cases "2 \<le> length m")
  case True
  have "size_minus_2 m = 6 \<longleftrightarrow> unat (size_minus_2 m) = unat (6 :: 64 word)"
    by (simp only: word_unat_eq_iff)
  also have "\<dots> \<longleftrightarrow> length m - 2 = 6"
    using True assms by (simp add: unat_size_minus_2)
  also have "\<dots> \<longleftrightarrow> length m = 8"
    using True by linarith
  finally show ?thesis .
next
  case False
  then show ?thesis
    using size_minus_2_short [of m] by simp
qed

lemma size_minus_2_even: "size_minus_2 m mod 2 = 0 \<longleftrightarrow> even (length m)"
  unfolding size_minus_2_def
  by (meson dvd_diff_left_iff even_iff_mod_2_eq_zero even_numeral even_of_nat)

lemma size_minus_2_mod_44:
  assumes "length m < 2 ^ 64"
  shows "size_minus_2 m mod 44 = 0 \<longleftrightarrow> 2 \<le> length m \<and> (length m - 2) mod 44 = 0"
proof (cases "2 \<le> length m")
  case True
  have "size_minus_2 m mod 44 = 0 \<longleftrightarrow> unat (size_minus_2 m mod 44) = unat (0 :: 64 word)"
    by (simp only: word_unat_eq_iff)
  also have "\<dots> \<longleftrightarrow> (length m - 2) mod 44 = 0"
    using True assms by (simp add: unat_mod_distrib unat_size_minus_2)
  finally show ?thesis using True by simp
next
  case False
  then show ?thesis
    using size_minus_2_short [of m] by simp
qed

subsection \<open>IMU records\<close>

text \<open>The constant of the model lies between two adjacent \<^verbatim>\<open>double\<close> values.\<close>

lemma DT_MIN_between:
  "4722366482869645 / 2 ^ 72 < DT_MIN \<and> DT_MIN < 4722366482869646 / 2 ^ 72"
  by (simp add: DT_MIN_def)

lemma list6: "length xs = 6 \<Longrightarrow> \<exists>a b c d e f. xs = [a, b, c, d, e, f]"
  by (auto simp: eval_nat_numeral length_Suc_conv)

lemma handle_IMU_ok:
  assumes len: "length payload = 6"
    and ts: "stod lib ts = Some tv"
    and vals: "map (stod lib) payload = map Some imu"
  shows "handle_IMU lib (tag # ts # payload) s =
           Inr (s\<lparr>t := tv, imu_measurement := imu,
                  filter_calls :=
                    (if DT_MIN < minus_double lib tv (t_prev s) \<and>
                        minus_double lib tv (t_prev s) < DT_MAX
                     then filter_calls s @
                            [Propagate (imu_measurement_prev s)
                               (minus_double lib tv (t_prev s))]
                     else filter_calls s)\<rparr>)"
proof -
  obtain a b c d e f where p: "payload = [a, b, c, d, e, f]"
    using list6 [OF len] by blast
  have "length imu = 6"
    using len vals by (metis length_map)
  then obtain a' b' c' d' e' f' where i: "imu = [a', b', c', d', e', f']"
    using list6 by blast
  show ?thesis
    using ts vals unfolding p i
    by (simp add: handle_IMU_def size_minus_2_def bind_res_def stod_at_def Let_def)
qed

text \<open>
  The whole loop body on a well-formed IMU line: six payload tokens, and the
  timestamp and the payload are numbers.
\<close>

lemma loop_body_IMU:
  assumes split: "boost_split line = ''IMU'' # ts # payload"
    and len: "length payload = 6"
    and ts: "stod lib ts = Some tv"
    and vals: "map (stod lib) payload = map Some imu"
  shows "loop_body lib s line =
           Inr \<lparr>t = tv, t_prev = tv, imu_measurement = imu, imu_measurement_prev = imu,
                filter_calls =
                  (if DT_MIN < minus_double lib tv (t_prev s) \<and>
                      minus_double lib tv (t_prev s) < DT_MAX
                   then filter_calls s @
                          [Propagate (imu_measurement_prev s)
                             (minus_double lib tv (t_prev s))]
                   else filter_calls s)\<rparr>"
  unfolding loop_body_def split handle_measurement_def
  by (simp add: handle_IMU_ok [OF len ts vals] bind_res_def store_previous_def)

text \<open>
  C1. On a well-formed IMU line with timestamp \<open>tv\<close>, let \<open>dt\<close> be the value the
  program computes for \<^verbatim>\<open>t - t_prev\<close>, that is \<open>minus_double lib tv (t_prev s)\<close>.
  The loop body returns, and it calls \<^verbatim>\<open>Propagate\<close> (once, as the last call made so
  far) exactly when \<open>1e-6 < dt < 1\<close>; otherwise the sequence of filter calls is
  unchanged. In particular there is no call for \<open>dt = 0\<close>, for \<open>dt = 1\<close>, and for
  \<open>dt = 1e-6\<close>, whether that is read as the number or as the \<^verbatim>\<open>double\<close> the literal
  denotes.
\<close>

theorem imu_propagate_iff_gate:
  assumes "boost_split line = ''IMU'' # ts # payload"
    and "length payload = 6"
    and "stod lib ts = Some tv"
    and "map (stod lib) payload = map Some imu"
  shows "\<exists>s'. loop_body lib s line = Inr s' \<and>
           (if 1 / 1000000 < minus_double lib tv (t_prev s) \<and>
               minus_double lib tv (t_prev s) < 1
            then filter_calls s' =
                   filter_calls s @
                     [Propagate (imu_measurement_prev s) (minus_double lib tv (t_prev s))]
            else filter_calls s' = filter_calls s) \<and>
           (minus_double lib tv (t_prev s) = 0 \<or>
            minus_double lib tv (t_prev s) = 1 / 1000000 \<or>
            minus_double lib tv (t_prev s) = 4722366482869645 / 2 ^ 72 \<or>
            minus_double lib tv (t_prev s) = 1
              \<longrightarrow> filter_calls s' = filter_calls s)"
proof -
  have "\<not> (1 / 1000000 < (4722366482869645 / 2 ^ 72 :: real))"
    by simp
  then show ?thesis
    by (auto simp: loop_body_IMU [OF assms] DT_MIN_def DT_MAX_def)
qed

text \<open>
  From the initial state (\<open>t_prev = 0\<close>): a line at 0.5 s is propagated; lines
  at 1 s, at \<open>2^-20\<close> s (below \<open>1e-6\<close>) and at 0 s are not.
\<close>

theorem imu_propagate_iff_gate_witness:
  "(\<exists>s'. loop_body exact_library initial ''IMU 0.5 0 0 0 0 0 9.75'' = Inr s' \<and>
          filter_calls s' = [Propagate [0, 0, 0, 0, 0, 0] (1 / 2)]) \<and>
   (\<exists>s'. loop_body exact_library initial ''IMU 1 0 0 0 0 0 9.75'' = Inr s' \<and>
          filter_calls s' = []) \<and>
   (\<exists>s'. loop_body exact_library initial ''IMU 0.00000095367431640625 0 0 0 0 0 9.75'' =
            Inr s' \<and>
          filter_calls s' = []) \<and>
   (\<exists>s'. loop_body exact_library initial ''IMU 0 0 0 0 0 0 9.75'' = Inr s' \<and>
          filter_calls s' = [])"
  using imu_propagate_iff_gate [where lib = exact_library and s = initial
          and line = "''IMU 0.5 0 0 0 0 0 9.75''" and ts = "''0.5''"
          and payload = "[''0'', ''0'', ''0'', ''0'', ''0'', ''9.75'']"
          and tv = "1 / 2" and imu = "[0, 0, 0, 0, 0, 39 / 4]"]
        imu_propagate_iff_gate [where lib = exact_library and s = initial
          and line = "''IMU 1 0 0 0 0 0 9.75''" and ts = "''1''"
          and payload = "[''0'', ''0'', ''0'', ''0'', ''0'', ''9.75'']"
          and tv = "1" and imu = "[0, 0, 0, 0, 0, 39 / 4]"]
        imu_propagate_iff_gate [where lib = exact_library and s = initial
          and line = "''IMU 0.00000095367431640625 0 0 0 0 0 9.75''"
          and ts = "''0.00000095367431640625''"
          and payload = "[''0'', ''0'', ''0'', ''0'', ''0'', ''9.75'']"
          and tv = "1 / 2 ^ 20" and imu = "[0, 0, 0, 0, 0, 39 / 4]"]
        imu_propagate_iff_gate [where lib = exact_library and s = initial
          and line = "''IMU 0 0 0 0 0 0 9.75''" and ts = "''0''"
          and payload = "[''0'', ''0'', ''0'', ''0'', ''0'', ''9.75'']"
          and tv = "0" and imu = "[0, 0, 0, 0, 0, 39 / 4]"]
  by (simp add: dec_defs initial_def)

text \<open>
  C2. On a well-formed IMU line the loop body returns; if the time step is
  admitted, the \<^verbatim>\<open>Propagate\<close> call carries \<open>imu_measurement_prev\<close>, the sample
  stored at the end of the previous pass, and the current \<open>dt\<close>, not the
  sample \<open>imu\<close> of the current line; and whether admitted or not, the sample
  of the current line is stored as the previous sample. Before the first pass
  the previous sample is zero.
\<close>

theorem imu_propagates_previous_sample:
  assumes "boost_split line = ''IMU'' # ts # payload"
    and "length payload = 6"
    and "stod lib ts = Some tv"
    and "map (stod lib) payload = map Some imu"
  shows "(\<exists>s'. loop_body lib s line = Inr s' \<and>
            imu_measurement_prev s' = imu \<and>
            (DT_MIN < minus_double lib tv (t_prev s) \<and>
             minus_double lib tv (t_prev s) < DT_MAX \<longrightarrow>
               filter_calls s' =
                 filter_calls s @
                   [Propagate (imu_measurement_prev s) (minus_double lib tv (t_prev s))])) \<and>
         imu_measurement_prev initial = [0, 0, 0, 0, 0, 0]"
  by (simp add: loop_body_IMU [OF assms] initial_def)

text \<open>
  The first line of a log, at 0.5 s with an acceleration of 9.75: the call
  carries the zero sample, and 9.75 is stored for the next pass.
\<close>

theorem imu_propagates_previous_sample_witness:
  "\<exists>s'. loop_body exact_library initial ''IMU 0.5 0 0 0 0 0 9.75'' = Inr s' \<and>
         imu_measurement_prev s' = [0, 0, 0, 0, 0, 39 / 4] \<and>
         filter_calls s' = [Propagate [0, 0, 0, 0, 0, 0] (1 / 2)]"
  using imu_propagates_previous_sample [where lib = exact_library
          and s = initial
          and line = "''IMU 0.5 0 0 0 0 0 9.75''" and ts = "''0.5''"
          and payload = "[''0'', ''0'', ''0'', ''0'', ''0'', ''9.75'']"
          and tv = "1 / 2" and imu = "[0, 0, 0, 0, 0, 39 / 4]"]
  by (simp add: dec_defs initial_def DT_MIN_def DT_MAX_def)

text \<open>
  C3. When the time step of a well-formed IMU line is outside the open interval
  from \<open>DT_MIN\<close> to \<open>DT_MAX\<close>, the loop body returns without an error, the
  filter receives no call, and the previous timestamp and the previous sample
  are overwritten with the timestamp and the sample of this line.
\<close>

theorem imu_rejected_updates_caches:
  assumes "boost_split line = ''IMU'' # ts # payload"
    and "length payload = 6"
    and "stod lib ts = Some tv"
    and "map (stod lib) payload = map Some imu"
    and "\<not> (DT_MIN < minus_double lib tv (t_prev s) \<and>
            minus_double lib tv (t_prev s) < DT_MAX)"
  shows "\<exists>s'. loop_body lib s line = Inr s' \<and>
           filter_calls s' = filter_calls s \<and>
           t_prev s' = tv \<and>
           imu_measurement_prev s' = imu"
  using assms(5) by (simp add: loop_body_IMU [OF assms(1-4)])

text \<open>A gap of five seconds: no call, and both caches take the new values.\<close>

theorem imu_rejected_updates_caches_witness:
  "\<exists>s'. loop_body exact_library initial ''IMU 5.000 1 2 3 4 5 6'' = Inr s' \<and>
         filter_calls s' = [] \<and> t_prev s' = 5 \<and>
         imu_measurement_prev s' = [1, 2, 3, 4, 5, 6]"
  using imu_rejected_updates_caches [where lib = exact_library
          and s = initial
          and line = "''IMU 5.000 1 2 3 4 5 6''" and ts = "''5.000''"
          and payload = "[''1'', ''2'', ''3'', ''4'', ''5'', ''6'']"
          and tv = "5" and imu = "[1, 2, 3, 4, 5, 6]"]
  by (simp add: dec_defs initial_def DT_MIN_def DT_MAX_def)

lemma loop_body_IMU_malformed:
  assumes "boost_split line = ''IMU'' # rest"
    and "length (boost_split line) < 2 ^ 64"
    and "length rest \<noteq> 7"
  shows "loop_body lib s line = Inl MalformedRecordError"
proof -
  have "size_minus_2 (''IMU'' # rest) \<noteq> 6"
    using assms size_minus_2_eq_6 [of "''IMU'' # rest"] by simp
  then show ?thesis
    by (simp add: loop_body_def assms(1) handle_measurement_def handle_IMU_def bind_res_def)
qed

text \<open>
  C5. For a line whose first token is \<open>IMU\<close> (with fewer than \<open>2^64\<close> tokens, as
  every vector has): if the number of tokens after the tag and the timestamp
  is not six, the loop body fails with \<open>MalformedRecordError\<close>, so it succeeds
  only with six; and with six payload tokens that are numbers it succeeds and
  the sample holds their values in the order of the line, the three angular
  velocities first and the three linear accelerations after them.
\<close>

theorem imu_payload_six:
  assumes "boost_split line = ''IMU'' # rest"
    and "length (boost_split line) < 2 ^ 64"
  shows "(length rest \<noteq> 7 \<longrightarrow> loop_body lib s line = Inl MalformedRecordError) \<and>
         (\<forall>s'. loop_body lib s line = Inr s' \<longrightarrow> length rest = 7) \<and>
         (\<forall>ts a b c d e f tv wx wy wz ax ay az.
            rest = [ts, a, b, c, d, e, f] \<and> stod lib ts = Some tv \<and>
            stod lib a = Some wx \<and> stod lib b = Some wy \<and> stod lib c = Some wz \<and>
            stod lib d = Some ax \<and> stod lib e = Some ay \<and> stod lib f = Some az \<longrightarrow>
            (\<exists>s'. loop_body lib s line = Inr s' \<and>
                   imu_measurement s' = [wx, wy, wz, ax, ay, az]))"
proof (intro conjI allI impI)
  assume "length rest \<noteq> 7"
  then show "loop_body lib s line = Inl MalformedRecordError"
    using assms by (rule loop_body_IMU_malformed [rotated 2])
next
  fix s' assume "loop_body lib s line = Inr s'"
  then show "length rest = 7"
    using loop_body_IMU_malformed [OF assms, of lib s] by auto
next
  fix ts a b c d e f tv wx wy wz ax ay az
  assume h: "rest = [ts, a, b, c, d, e, f] \<and> stod lib ts = Some tv \<and>
            stod lib a = Some wx \<and> stod lib b = Some wy \<and> stod lib c = Some wz \<and>
            stod lib d = Some ax \<and> stod lib e = Some ay \<and> stod lib f = Some az"
  then have split: "boost_split line = ''IMU'' # ts # [a, b, c, d, e, f]"
    using assms(1) by simp
  have vals: "map (stod lib) [a, b, c, d, e, f] = map Some [wx, wy, wz, ax, ay, az]"
    using h by simp
  show "\<exists>s'. loop_body lib s line = Inr s' \<and>
              imu_measurement s' = [wx, wy, wz, ax, ay, az]"
    using h by (simp add: loop_body_IMU [OF split _ _ vals])
qed

text \<open>Three payload tokens are refused; six are read in order.\<close>

theorem imu_payload_six_witness:
  "loop_body exact_library initial ''IMU 1.0 1 2 3'' = Inl MalformedRecordError \<and>
   (\<exists>s'. loop_body exact_library initial ''IMU 1.0 1 2 3 4 5 6'' = Inr s' \<and>
          imu_measurement s' = [1, 2, 3, 4, 5, 6])"
  using imu_payload_six [where lib = exact_library and s = initial
          and line = "''IMU 1.0 1 2 3''" and rest = "[''1.0'', ''1'', ''2'', ''3'']"]
        imu_payload_six [where lib = exact_library and s = initial
          and line = "''IMU 1.0 1 2 3 4 5 6''"
          and rest = "[''1.0'', ''1'', ''2'', ''3'', ''4'', ''5'', ''6'']",
          THEN conjunct2, THEN conjunct2, rule_format,
          of "''1.0''" "''1''" "''2''" "''3''" "''4''" "''5''" "''6''" 1 1 2 3 4 5 6]
  by (simp add: dec_defs)

subsection \<open>Unrecognized lines and the loop invariant\<close>

lemma stod_at_Inr: "stod_at lib m i = Inr v \<Longrightarrow> i < length m \<and> stod lib (m ! i) = Some v"
  by (auto simp: stod_at_def split: if_splits option.splits)

lemma stoi_at_Inr: "stoi_at lib m i = Inr v \<Longrightarrow> i < length m \<and> stoi lib (m ! i) = Some v"
  by (auto simp: stoi_at_def split: if_splits option.splits)

lemma bind_res_Inr: "bind_res r f = Inr y \<longleftrightarrow> (\<exists>v. r = Inr v \<and> f v = Inr y)"
  by (cases r) (auto simp: bind_res_def)

lemma handle_IMU_timestamp:
  "handle_IMU lib m s = Inr s' \<Longrightarrow> 1 < length m \<and> stod lib (m ! 1) = Some (t s')"
  by (auto simp: handle_IMU_def bind_res_Inr Let_def split: if_splits dest!: stod_at_Inr)

lemma handle_CONTACT_timestamp:
  "handle_CONTACT lib m s = Inr s' \<Longrightarrow> 1 < length m \<and> stod lib (m ! 1) = Some (t s')"
  by (auto simp: handle_CONTACT_def bind_res_Inr split: if_splits dest!: stod_at_Inr)

lemma handle_KINEMATIC_timestamp:
  "handle_KINEMATIC lib m s = Inr s' \<Longrightarrow> 1 < length m \<and> stod lib (m ! 1) = Some (t s')"
  by (auto simp: handle_KINEMATIC_def bind_res_Inr split: if_splits dest!: stod_at_Inr)

lemma handle_measurement_timestamp:
  assumes "handle_measurement lib m s = Inr s'" "m \<noteq> []" "hd m \<in> {''IMU'', ''CONTACT'', ''KINEMATIC''}"
  shows "1 < length m \<and> stod lib (m ! 1) = Some (t s')"
proof -
  obtain tag rest where m: "m = tag # rest"
    using assms(2) by (cases m) auto
  consider "tag = ''IMU''" | "tag = ''CONTACT''" | "tag = ''KINEMATIC''"
    using assms(3) m by auto
  then show ?thesis
  proof cases
    case 1
    then show ?thesis
      using assms(1) handle_IMU_timestamp [of lib m s s'] by (simp add: m handle_measurement_def)
  next
    case 2
    then show ?thesis
      using assms(1) handle_CONTACT_timestamp [of lib m s s'] by (simp add: m handle_measurement_def)
  next
    case 3
    then show ?thesis
      using assms(1) handle_KINEMATIC_timestamp [of lib m s s'] by (simp add: m handle_measurement_def)
  qed
qed

lemma handle_measurement_unknown:
  assumes "hd m \<notin> {''IMU'', ''CONTACT'', ''KINEMATIC''}" "m \<noteq> []"
  shows "handle_measurement lib m s = Inr s"
  using assms by (cases m) (auto simp: handle_measurement_def)

lemma loop_body_Inr:
  "loop_body lib s line = Inr s' \<longleftrightarrow>
     (\<exists>s1. handle_measurement lib (boost_split line) s = Inr s1 \<and> s' = store_previous s1)"
  by (auto simp: loop_body_def bind_res_Inr)

lemma stored_initial: "stored initial"
  by (simp add: stored_def initial_def)

lemma stored_loop_body: "loop_body lib s line = Inr s' \<Longrightarrow> stored s'"
  by (auto simp: loop_body_Inr stored_def store_previous_def)

lemma stored_run: "run lib s lines = Inr s' \<Longrightarrow> stored s \<Longrightarrow> stored s'"
proof (induction lines arbitrary: s)
  case Nil
  then show ?case by simp
next
  case (Cons line lines)
  then show ?case
    by (auto split: sum.splits dest: stored_loop_body)
qed

lemma loop_body_unknown:
  assumes "hd (boost_split line) \<notin> {''IMU'', ''CONTACT'', ''KINEMATIC''}" "stored s"
  shows "loop_body lib s line = Inr s"
  using assms(2)
  by (simp add: loop_body_def handle_measurement_unknown [OF assms(1) boost_split_not_Nil]
      bind_res_def store_previous_def stored_def)

text \<open>
  C10. Splitting any line, the empty one included, gives at least one token,
  so the read of \<^verbatim>\<open>measurement[0]\<close> is within bounds. In a state reached by the
  loop from the initial state, a line whose first token is none of \<open>IMU\<close>,
  \<open>CONTACT\<close>, \<open>KINEMATIC\<close> leaves the whole state as it is: the filter
  receives no call, and the previous timestamp and the previous sample keep
  their values.
\<close>

theorem unknown_record_noop:
  "1 \<le> length (boost_split line) \<and>
   (run lib initial lines = Inr s \<and>
    hd (boost_split line) \<notin> {''IMU'', ''CONTACT'', ''KINEMATIC''} \<longrightarrow>
      loop_body lib s line = Inr s)"
proof (intro conjI impI)
  show "1 \<le> length (boost_split line)"
    using boost_split_not_Nil [of line] by (cases "boost_split line") auto
next
  assume h: "run lib initial lines = Inr s \<and>
    hd (boost_split line) \<notin> {''IMU'', ''CONTACT'', ''KINEMATIC''}"
  then have "stored s"
    using stored_run stored_initial by blast
  then show "loop_body lib s line = Inr s"
    using h loop_body_unknown by blast
qed

text \<open>The empty line after one IMU line.\<close>

theorem unknown_record_noop_witness:
  "1 \<le> length (boost_split '''') \<and>
   loop_body exact_library
     \<lparr>t = 1, t_prev = 1, imu_measurement = [1, 2, 3, 4, 5, 6],
      imu_measurement_prev = [1, 2, 3, 4, 5, 6], filter_calls = []\<rparr> '''' =
   Inr \<lparr>t = 1, t_prev = 1, imu_measurement = [1, 2, 3, 4, 5, 6],
        imu_measurement_prev = [1, 2, 3, 4, 5, 6], filter_calls = []\<rparr>"
proof -
  let ?s = "\<lparr>t = 1, t_prev = 1, imu_measurement = [1, 2, 3, 4, 5, 6],
             imu_measurement_prev = [1, 2, 3, 4, 5, 6], filter_calls = []\<rparr>"
  have "loop_body exact_library initial ''IMU 1.0 1 2 3 4 5 6'' = Inr ?s"
    by (simp add: loop_body_IMU [where ts = "''1.0''"
          and payload = "[''1'', ''2'', ''3'', ''4'', ''5'', ''6'']"
          and tv = 1 and imu = "[1, 2, 3, 4, 5, 6]"]
        dec_defs initial_def DT_MIN_def DT_MAX_def)
  then have reach: "run exact_library initial [''IMU 1.0 1 2 3 4 5 6''] = Inr ?s"
    by simp
  have tag: "hd (boost_split '''') \<notin> {''IMU'', ''CONTACT'', ''KINEMATIC''}"
    by simp
  show ?thesis
    using unknown_record_noop [where lib = exact_library
            and lines = "[''IMU 1.0 1 2 3 4 5 6'']" and line = "''''" and s = ?s]
          reach tag
    by blast
qed

subsection \<open>The previous timestamp\<close>

text \<open>
  C4, as stated, says that after any record, an unrecognized one included, the
  previous timestamp is the timestamp of the record just handled. After an
  IMU line at 1 s, the line \<open>FOO 5.0\<close> has the timestamp token 5.0, and the
  previous timestamp stays 1.
\<close>

theorem unknown_record_timestamp_counterexample:
  "run exact_library initial [''IMU 1.0 1 2 3 4 5 6'', ''FOO 5.0''] =
     Inr \<lparr>t = 1, t_prev = 1, imu_measurement = [1, 2, 3, 4, 5, 6],
          imu_measurement_prev = [1, 2, 3, 4, 5, 6], filter_calls = []\<rparr> \<and>
   dec_stod (boost_split ''FOO 5.0'' ! 1) = Some 5"
  by (simp add: body_defs dec_defs initial_def DT_MIN_def DT_MAX_def)

text \<open>
  C4, amended. In a state reached by the loop from the initial state, after a
  pass of the loop body that returns, the previous timestamp equals the
  current timestamp \<open>t\<close>. For an IMU, CONTACT or KINEMATIC line this is the
  number read from the second token of the line just handled. For any other
  line no token is read and the state, with both timestamps, is unchanged.
\<close>

theorem previous_timestamp_after_record:
  assumes "run lib initial lines = Inr s"
    and "loop_body lib s line = Inr s'"
  shows "t_prev s' = t s' \<and>
         (hd (boost_split line) \<in> {''IMU'', ''CONTACT'', ''KINEMATIC''} \<longrightarrow>
            1 < length (boost_split line) \<and>
            stod lib (boost_split line ! 1) = Some (t_prev s')) \<and>
         (hd (boost_split line) \<notin> {''IMU'', ''CONTACT'', ''KINEMATIC''} \<longrightarrow> s' = s)"
proof (intro conjI impI)
  show "t_prev s' = t s'"
    using stored_loop_body [OF assms(2)] by (simp add: stored_def)
next
  assume tag: "hd (boost_split line) \<in> {''IMU'', ''CONTACT'', ''KINEMATIC''}"
  obtain s1 where s1: "handle_measurement lib (boost_split line) s = Inr s1"
    and s': "s' = store_previous s1"
    using assms(2) by (auto simp: loop_body_Inr)
  have "1 < length (boost_split line) \<and> stod lib (boost_split line ! 1) = Some (t s1)"
    using handle_measurement_timestamp [OF s1 boost_split_not_Nil tag] .
  then show "1 < length (boost_split line)" 
    and "stod lib (boost_split line ! 1) = Some (t_prev s')"
    by (simp_all add: s' store_previous_def)
next
  assume tag: "hd (boost_split line) \<notin> {''IMU'', ''CONTACT'', ''KINEMATIC''}"
  have "stored s"
    using stored_run [OF assms(1) stored_initial] .
  then show "s' = s"
    using loop_body_unknown [OF tag, of s lib] assms(2) by simp
qed

text \<open>A CONTACT line at 2 s after an IMU line at 1 s.\<close>

theorem previous_timestamp_after_record_witness:
  "\<exists>s'. loop_body exact_library
           \<lparr>t = 1, t_prev = 1, imu_measurement = [1, 2, 3, 4, 5, 6],
            imu_measurement_prev = [1, 2, 3, 4, 5, 6], filter_calls = []\<rparr>
           ''CONTACT 2.0 0 1'' = Inr s' \<and>
         t_prev s' = t s' \<and>
         dec_stod (boost_split ''CONTACT 2.0 0 1'' ! 1) = Some (t_prev s')"
proof -
  let ?s = "\<lparr>t = 1, t_prev = 1, imu_measurement = [1, 2, 3, 4, 5, 6],
             imu_measurement_prev = [1, 2, 3, 4, 5, 6], filter_calls = []\<rparr>"
  let ?s' = "\<lparr>t = 2, t_prev = 2, imu_measurement = [1, 2, 3, 4, 5, 6],
           imu_measurement_prev = [1, 2, 3, 4, 5, 6],
           filter_calls = [setContacts [(0, True)]]\<rparr>"
  have reach: "run exact_library initial [''IMU 1.0 1 2 3 4 5 6''] = Inr ?s"
    by (simp add: body_defs dec_defs initial_def DT_MIN_def DT_MAX_def)
  have step: "loop_body exact_library ?s ''CONTACT 2.0 0 1'' = Inr ?s'"
    by (simp add: body_defs dec_defs read_contacts.simps)
  have tag: "hd (boost_split ''CONTACT 2.0 0 1'') \<in> {''IMU'', ''CONTACT'', ''KINEMATIC''}"
    by simp
  have "t_prev ?s' = t ?s' \<and>
        dec_stod (boost_split ''CONTACT 2.0 0 1'' ! 1) = Some (t_prev ?s')"
    using previous_timestamp_after_record [OF reach step] tag
    by (simp add: exact_library_def)
  then show ?thesis
    using step by blast
qed

subsection \<open>CONTACT records\<close>

lemma read_contacts_ok:
  assumes "length m = i + 2 * n"
    and "\<forall>k<n. stoi lib (m ! (i + 2 * k)) = Some (ids k) \<and> stod lib (m ! (i + 2 * k + 1)) = Some (ds k)"
  shows "read_contacts lib m i acc = Inr (acc @ map (\<lambda>k. (ids k, ds k \<noteq> 0)) [0..<n])"
  using assms
proof (induction n arbitrary: i acc ids ds)
  case 0
  then show ?case
    by (simp add: read_contacts.simps [of lib m i acc])
next
  case (Suc n)
  have len: "length m = (i + 2) + 2 * n"
    using Suc.prems(1) by simp
  have toks: "\<forall>k<n. stoi lib (m ! ((i + 2) + 2 * k)) = Some (ids (Suc k)) \<and>
                     stod lib (m ! ((i + 2) + 2 * k + 1)) = Some (ds (Suc k))"
  proof (intro allI impI)
    fix k assume "k < n"
    then have "Suc k < Suc n" by simp
    then have "stoi lib (m ! (i + 2 * Suc k)) = Some (ids (Suc k)) \<and>
               stod lib (m ! (i + 2 * Suc k + 1)) = Some (ds (Suc k))"
      using Suc.prems(2) by blast
    then show "stoi lib (m ! ((i + 2) + 2 * k)) = Some (ids (Suc k)) \<and>
               stod lib (m ! ((i + 2) + 2 * k + 1)) = Some (ds (Suc k))"
      by (simp add: add.commute add.left_commute)
  qed
  have first: "stoi lib (m ! i) = Some (ids 0)" "stod lib (m ! (i + 1)) = Some (ds 0)"
    using Suc.prems(2) by (auto dest: spec [of _ 0])
  have "read_contacts lib m i acc =
          read_contacts lib m (i + 2) (acc @ [(ids 0, ds 0 \<noteq> 0)])"
    using first Suc.prems(1)
    by (simp add: read_contacts.simps [of lib m i acc] stoi_at_def stod_at_def)
  also have "\<dots> = Inr ((acc @ [(ids 0, ds 0 \<noteq> 0)]) @
                        map (\<lambda>k. (ids (Suc k), ds (Suc k) \<noteq> 0)) [0..<n])"
    using Suc.IH [OF len toks] .
  also have "\<dots> = Inr (acc @ map (\<lambda>k. (ids k, ds k \<noteq> 0)) [0..<Suc n])"
    by (simp only: map_upt_Suc) simp
  finally show ?case .
qed

lemma read_contacts_Inr:
  assumes "read_contacts lib m i acc = Inr cs"
    and "length m = i + 2 * n"
  shows "\<exists>ids ds.
           (\<forall>k<n. stoi lib (m ! (i + 2 * k)) = Some (ids k) \<and>
                   stod lib (m ! (i + 2 * k + 1)) = Some (ds k)) \<and>
           cs = acc @ map (\<lambda>k. (ids k, ds k \<noteq> 0)) [0..<n]"
  using assms
proof (induction n arbitrary: i acc)
  case 0
  then show ?case
    by (simp add: read_contacts.simps [of lib m i acc])
next
  case (Suc n)
  have lt: "i < length m" "i + 1 < length m"
    using Suc.prems(2) by simp_all
  obtain id0 d0 where id0: "stoi lib (m ! i) = Some id0" and d0: "stod lib (m ! (i + 1)) = Some d0"
    and rec: "read_contacts lib m (i + 2) (acc @ [(id0, d0 \<noteq> 0)]) = Inr cs"
    using Suc.prems(1) lt
    by (auto simp: read_contacts.simps [of lib m i acc] stoi_at_def stod_at_def
        split: option.splits)
  have len: "length m = (i + 2) + 2 * n"
    using Suc.prems(2) by simp
  obtain ids ds where
    toks: "\<forall>k<n. stoi lib (m ! ((i + 2) + 2 * k)) = Some (ids k) \<and>
                  stod lib (m ! ((i + 2) + 2 * k + 1)) = Some (ds k)"
    and cs: "cs = (acc @ [(id0, d0 \<noteq> 0)]) @ map (\<lambda>k. (ids k, ds k \<noteq> 0)) [0..<n]"
    using Suc.IH [OF rec len] by blast
  let ?ids = "case_nat id0 ids" and ?ds = "case_nat d0 ds"
  have "\<forall>k<Suc n. stoi lib (m ! (i + 2 * k)) = Some (?ids k) \<and>
                    stod lib (m ! (i + 2 * k + 1)) = Some (?ds k)"
  proof (intro allI impI)
    fix k assume k: "k < Suc n"
    show "stoi lib (m ! (i + 2 * k)) = Some (?ids k) \<and> stod lib (m ! (i + 2 * k + 1)) = Some (?ds k)"
    proof (cases k)
      case 0
      then show ?thesis using id0 d0 by simp
    next
      case (Suc j)
      then have "j < n" using k by simp
      then show ?thesis
        using toks Suc by (simp add: add.commute add.left_commute)
    qed
  qed
  moreover have "cs = acc @ map (\<lambda>k. (?ids k, ?ds k \<noteq> 0)) [0..<Suc n]"
    unfolding cs by (simp only: map_upt_Suc) simp
  ultimately show ?case by blast
qed

lemma handle_CONTACT_odd:
  "odd (length payload) \<Longrightarrow>
     handle_CONTACT lib (tag # ts # payload) s = Inl MalformedRecordError"
  using size_minus_2_even [of "tag # ts # payload"]
  by (simp add: handle_CONTACT_def)

lemma handle_CONTACT_even:
  "even (length payload) \<Longrightarrow>
     handle_CONTACT lib (tag # ts # payload) s =
       bind_res (stod_at lib (tag # ts # payload) 1) (\<lambda>tv.
       bind_res (read_contacts lib (tag # ts # payload) 2 []) (\<lambda>contacts.
         Inr (s\<lparr>t := tv, filter_calls := filter_calls s @ [setContacts contacts]\<rparr>)))"
  using size_minus_2_even [of "tag # ts # payload"]
  by (simp add: handle_CONTACT_def)

text \<open>
  C6. For a CONTACT line with a timestamp: with an odd number of payload
  tokens the loop body fails with \<open>MalformedRecordError\<close>. With \<open>2 * n\<close> payload
  tokens, where the timestamp is a number and for each \<open>k < n\<close> token \<open>2 * k\<close> is
  an integer \<open>ids k\<close> and token \<open>2 * k + 1\<close> a number \<open>ds k\<close>, the loop body
  returns and the filter receives exactly one more call, \<^verbatim>\<open>setContacts\<close> with the
  \<open>n\<close> pairs \<open>(ids k, ds k \<noteq> 0)\<close> in the order of the line.
\<close>

theorem contact_pairs_forwarded:
  assumes "boost_split line = ''CONTACT'' # ts # payload"
  shows "(odd (length payload) \<longrightarrow> loop_body lib s line = Inl MalformedRecordError) \<and>
         (\<forall>n tv ids ds.
            length payload = 2 * n \<and> stod lib ts = Some tv \<and>
            (\<forall>k<n. stoi lib (payload ! (2 * k)) = Some (ids k) \<and>
                    stod lib (payload ! (2 * k + 1)) = Some (ds k)) \<longrightarrow>
            (\<exists>s'. loop_body lib s line = Inr s' \<and>
                   filter_calls s' =
                     filter_calls s @ [setContacts (map (\<lambda>k. (ids k, ds k \<noteq> 0)) [0..<n])]))"
proof (intro conjI allI impI)
  assume "odd (length payload)"
  then show "loop_body lib s line = Inl MalformedRecordError"
    by (simp add: loop_body_def assms handle_measurement_def handle_CONTACT_odd bind_res_def)
next
  fix n tv ids ds
  assume h: "length payload = 2 * n \<and> stod lib ts = Some tv \<and>
            (\<forall>k<n. stoi lib (payload ! (2 * k)) = Some (ids k) \<and>
                    stod lib (payload ! (2 * k + 1)) = Some (ds k))"
  let ?m = "''CONTACT'' # ts # payload"
  have len: "length ?m = 2 + 2 * n"
    using h by simp
  have toks: "\<forall>k<n. stoi lib (?m ! (2 + 2 * k)) = Some (ids k) \<and>
                     stod lib (?m ! (2 + 2 * k + 1)) = Some (ds k)"
    using h by simp
  have rc: "read_contacts lib ?m 2 [] = Inr (map (\<lambda>k. (ids k, ds k \<noteq> 0)) [0..<n])"
    using read_contacts_ok [OF len toks, of "[]"] by simp
  have "even (length payload)"
    using h by simp
  then have "loop_body lib s line =
               Inr (store_previous
                     (s\<lparr>t := tv, filter_calls :=
                          filter_calls s @ [setContacts (map (\<lambda>k. (ids k, ds k \<noteq> 0)) [0..<n])]\<rparr>))"
    using h
    by (simp add: loop_body_def assms handle_measurement_def handle_CONTACT_even rc
        bind_res_def stod_at_def)
  then show "\<exists>s'. loop_body lib s line = Inr s' \<and>
                   filter_calls s' =
                     filter_calls s @ [setContacts (map (\<lambda>k. (ids k, ds k \<noteq> 0)) [0..<n])]"
    by (simp add: store_previous_def)
qed

lemma all_less_2: "(\<forall>k<2::nat. P k) \<longleftrightarrow> P 0 \<and> P 1"
  by (auto simp: less_2_cases_iff)

text \<open>Three payload tokens are refused; \<open>0 1 1 0\<close> gives two pairs.\<close>

theorem contact_pairs_forwarded_witness:
  "loop_body exact_library initial ''CONTACT 1.0 0 1 1'' = Inl MalformedRecordError \<and>
   (\<exists>s'. loop_body exact_library initial ''CONTACT 1.0 0 1 1 0'' = Inr s' \<and>
          filter_calls s' = [setContacts [(0, True), (1, False)]])"
proof -
  have "loop_body exact_library initial ''CONTACT 1.0 0 1 1'' = Inl MalformedRecordError"
    using contact_pairs_forwarded [where lib = exact_library and s = initial
            and line = "''CONTACT 1.0 0 1 1''" and ts = "''1.0''"
            and payload = "[''0'', ''1'', ''1'']"]
    by simp
  moreover have "\<exists>s'. loop_body exact_library initial ''CONTACT 1.0 0 1 1 0'' = Inr s' \<and>
          filter_calls s' =
            filter_calls initial @
            [setContacts (map (\<lambda>k. (word_of_nat k, (if k = 0 then 1 else (0::real)) \<noteq> 0)) [0..<2])]"
    using contact_pairs_forwarded [where lib = exact_library and s = initial
            and line = "''CONTACT 1.0 0 1 1 0''" and ts = "''1.0''"
            and payload = "[''0'', ''1'', ''1'', ''0'']",
            THEN conjunct2, rule_format,
            of 2 1 "word_of_nat" "\<lambda>k. if k = 0 then 1 else 0"]
    by (simp add: dec_defs all_less_2)
  ultimately show ?thesis
    by (simp add: initial_def upt_rec)
qed

text \<open>
  C9. Whenever the loop body returns on a CONTACT line, the filter receives
  one \<^verbatim>\<open>setContacts\<close> call with half as many pairs as there are payload tokens,
  and the indicator of pair \<open>k\<close> is true exactly when the number read from
  payload token \<open>2 * k + 1\<close> is different from zero.
\<close>

theorem contact_indicator_nonzero:
  assumes "boost_split line = ''CONTACT'' # ts # payload"
    and "loop_body lib s line = Inr s'"
  shows "\<exists>contacts.
           filter_calls s' = filter_calls s @ [setContacts contacts] \<and>
           length payload = 2 * length contacts \<and>
           (\<forall>k<length contacts.
              \<exists>d. stod lib (payload ! (2 * k + 1)) = Some d \<and> (snd (contacts ! k) \<longleftrightarrow> d \<noteq> 0))"
proof -
  let ?m = "''CONTACT'' # ts # payload"
  obtain s1 where s1: "handle_CONTACT lib ?m s = Inr s1" and s': "s' = store_previous s1"
    using assms by (auto simp: loop_body_Inr handle_measurement_def)
  have ev: "even (length payload)"
    using s1 handle_CONTACT_odd [of payload lib "''CONTACT''" ts s] by auto
  then obtain n where n: "length payload = 2 * n"
    by (auto elim: evenE)
  obtain tv cs where rc: "read_contacts lib ?m 2 [] = Inr cs"
    and s1_eq: "s1 = s\<lparr>t := tv, filter_calls := filter_calls s @ [setContacts cs]\<rparr>"
    using s1 by (auto simp: handle_CONTACT_even [OF ev] bind_res_Inr)
  have len: "length ?m = 2 + 2 * n"
    using n by simp
  obtain ids ds where
    toks: "\<forall>k<n. stoi lib (?m ! (2 + 2 * k)) = Some (ids k) \<and>
                  stod lib (?m ! (2 + 2 * k + 1)) = Some (ds k)"
    and cs: "cs = [] @ map (\<lambda>k. (ids k, ds k \<noteq> 0)) [0..<n]"
    using read_contacts_Inr [OF rc len] by blast
  have "filter_calls s' = filter_calls s @ [setContacts cs]"
    by (simp add: s' s1_eq store_previous_def)
  moreover have "length payload = 2 * length cs"
    by (simp add: n cs)
  moreover have "\<forall>k<length cs.
              \<exists>d. stod lib (payload ! (2 * k + 1)) = Some d \<and> (snd (cs ! k) \<longleftrightarrow> d \<noteq> 0)"
    using toks by (simp add: cs)
  ultimately show ?thesis by blast
qed

text \<open>The indicators 2.5 and -1 count as contact, 0 does not.\<close>

theorem contact_indicator_nonzero_witness:
  "loop_body exact_library initial ''CONTACT 1.0 0 2.5 1 -1 2 0'' =
     Inr \<lparr>t = 1, t_prev = 1, imu_measurement = [0, 0, 0, 0, 0, 0],
          imu_measurement_prev = [0, 0, 0, 0, 0, 0],
          filter_calls = [setContacts [(0, True), (1, True), (2, False)]]\<rparr> \<and>
   (\<exists>contacts.
      [setContacts [(0, True), (1, True), (2, False)]] = [setContacts contacts] \<and>
      (\<forall>k<length contacts.
         \<exists>d. dec_stod ([''0'', ''2.5'', ''1'', ''-1'', ''2'', ''0''] ! (2 * k + 1)) = Some d \<and>
             (snd (contacts ! k) \<longleftrightarrow> d \<noteq> 0)))"
proof -
  let ?s' = "\<lparr>t = 1, t_prev = 1, imu_measurement = [0, 0, 0, 0, 0, 0],
          imu_measurement_prev = [0, 0, 0, 0, 0, 0],
          filter_calls = [setContacts [(0, True), (1, True), (2, False)]]\<rparr>"
  have split: "boost_split ''CONTACT 1.0 0 2.5 1 -1 2 0'' =
                 ''CONTACT'' # ''1.0'' # [''0'', ''2.5'', ''1'', ''-1'', ''2'', ''0'']"
    by simp
  have step: "loop_body exact_library initial ''CONTACT 1.0 0 2.5 1 -1 2 0'' = Inr ?s'"
    by (simp add: body_defs dec_defs read_contacts.simps initial_def)
  show ?thesis
    using contact_indicator_nonzero [OF split step] step
    by (simp add: initial_def exact_library_def)
qed

subsection \<open>KINEMATIC records\<close>

lemma upt_4: "[0..<4] = [0, 1, 2, 3]"
  by (simp add: upt_rec)

lemma list4: "length xs = 4 \<Longrightarrow> \<exists>a b c d. xs = [a, b, c, d]"
  by (auto simp: eval_nat_numeral length_Suc_conv)

lemma rows3_shape:
  "\<exists>a b c d e f g h i. rows3 R = [[a, b, c], [d, e, f], [g, h, i]]"
  by (cases R rule: rows3.cases) auto

text \<open>The two block assignments on a 4 by 4 matrix.\<close>

lemma set_blocks:
  assumes "length H = 4" and "\<forall>j<3. length (H ! j) = 4"
    and "R = [[a, b, c], [d, e, f], [g, h, i]]"
  shows "set_block31 (set_block33 H R) p =
           [[a, b, c, p ! 0], [d, e, f, p ! 1], [g, h, i, p ! 2], H ! 3]"
proof -
  obtain r0 r1 r2 r3 where H: "H = [r0, r1, r2, r3]"
    using list4 [OF assms(1)] by blast
  have "length r0 = 4" "length r1 = 4" "length r2 = 4"
    using assms(2) by (auto simp: H dest: spec [of _ 0] spec [of _ 1] spec [of _ 2])
  then obtain x0 y0 z0 w0 x1 y1 z1 w1 x2 y2 z2 w2 where
    rows: "r0 = [x0, y0, z0, w0]" "r1 = [x1, y1, z1, w1]" "r2 = [x2, y2, z2, w2]"
    using list4 by metis
  show ?thesis
    by (simp add: set_block31_def set_block33_def upt_4 H rows assms(3))
qed

text \<open>
  Without rounding, \<open>real_normalize\<close> gives a quaternion of norm one unless the
  quaternion is zero. The \<^verbatim>\<open>double\<close> computation differs from it by rounding, and
  where the squared norm underflows to zero or overflows.
\<close>

lemma squaredNorm_real_normalize:
  assumes "squaredNorm q > 0"
  shows "squaredNorm (real_normalize q) = 1"
proof -
  let ?z = "squaredNorm q"
  have frac: "a / sqrt ?z * (a / sqrt ?z) = a * a / ?z" for a
    using assms by simp
  have "squaredNorm (real_normalize q) =
          qw q * qw q / ?z + qx q * qx q / ?z + qy q * qy q / ?z + qz q * qz q / ?z"
    using assms
    by (simp add: real_normalize_def Let_def
        squaredNorm_def [of "\<lparr>qw = _, qx = _, qy = _, qz = _\<rparr>"] frac)
  also have "\<dots> = (qw q * qw q + qx q * qx q + qy q * qy q + qz q * qz q) / ?z"
    by (simp add: add_divide_distrib)
  also have "\<dots> = 1"
    using assms by (simp add: squaredNorm_def)
  finally show ?thesis .
qed

lemma norm_real_normalize: "squaredNorm q > 0 \<Longrightarrow> norm_q (real_normalize q) = 1"
  by (simp add: norm_q_def squaredNorm_real_normalize)

lemma stod_at_ok: "i < length m \<Longrightarrow> stod lib (m ! i) = Some x \<Longrightarrow> stod_at lib m i = Inr x"
  by (simp add: stod_at_def)

lemma read_Cov_ok:
  assumes len: "i + 44 \<le> length m"
    and vals: "\<forall>k. 1 \<le> k \<and> k < 44 \<longrightarrow> stod lib (m ! (i + k)) = Some (a k)"
  shows "read_Cov lib m i = Inr (map (\<lambda>j. map (\<lambda>k. a (8 + j * 6 + k)) [0..<6]) [0..<6])"
proof -
  have cell: "stod_at lib m (i + 8 + j * 6 + k) = Inr (a (8 + j * 6 + k))"
    if "j < 6" "k < 6" for j k
  proof -
    have b: "1 \<le> 8 + j * 6 + k \<and> 8 + j * 6 + k < 44"
      using that by simp
    then have "stod lib (m ! (i + (8 + j * 6 + k))) = Some (a (8 + j * 6 + k))"
      using vals by blast
    moreover have "i + (8 + j * 6 + k) < length m"
      using b len by simp
    ultimately show ?thesis
      by (simp add: stod_at_ok add.assoc)
  qed
  have row: "collect (map (\<lambda>k. stod_at lib m (i + 8 + j * 6 + k)) [0..<6]) =
               Inr (map (\<lambda>k. a (8 + j * 6 + k)) [0..<6])" if "j < 6" for j
  proof -
    have "map (\<lambda>k. stod_at lib m (i + 8 + j * 6 + k)) [0..<6] =
            map (\<lambda>k. Inr (a (8 + j * 6 + k))) [0..<6]"
      using cell [OF that] by (intro map_cong) auto
    then show ?thesis
      by (simp only: collect_Inr)
  qed
  have "map (\<lambda>j. collect (map (\<lambda>k. stod_at lib m (i + 8 + j * 6 + k)) [0..<6])) [0..<6] =
          map (\<lambda>j. Inr (map (\<lambda>k. a (8 + j * 6 + k)) [0..<6])) [0..<6]"
    using row by (intro map_cong) auto
  then show ?thesis
    unfolding read_Cov_def by (simp only: collect_Inr)
qed

lemma set_blocks_Identity4:
  assumes "length H = 4" and "\<forall>j<3. length (H ! j) = 4" and "H ! 3 = [0, 0, 0, 1]"
  shows "set_block31 (set_block33 H (rows3 R)) p =
           set_block31 (set_block33 Identity4 (rows3 R)) p"
proof -
  obtain a b c d e f g h i where R: "rows3 R = [[a, b, c], [d, e, f], [g, h, i]]"
    using rows3_shape by blast
  have I: "length Identity4 = 4" "\<forall>j<3. length (Identity4 ! j) = 4"
    by (auto simp: Identity4_def less_Suc_eq eval_nat_numeral)
  show ?thesis
    by (simp add: set_blocks [OF assms(1,2) R] set_blocks [OF I R] assms(3))
       (simp add: Identity4_def)
qed

lemma pose_shape:
  fixes R p
  defines "P \<equiv> set_block31 (set_block33 Identity4 (rows3 R)) p"
  shows "length P = 4 \<and> (\<forall>j<3. length (P ! j) = 4) \<and> P ! 3 = [0, 0, 0, 1]"
proof -
  obtain a b c d e f g h i where R: "rows3 R = [[a, b, c], [d, e, f], [g, h, i]]"
    using rows3_shape by blast
  have I: "length Identity4 = 4" "\<forall>j<3. length (Identity4 ! j) = 4"
    by (auto simp: Identity4_def less_Suc_eq eval_nat_numeral)
  have "P = [[a, b, c, p ! 0], [d, e, f, p ! 1], [g, h, i, p ! 2], Identity4 ! 3]"
    unfolding P_def by (rule set_blocks [OF I R])
  then show ?thesis
    by (auto simp: Identity4_def less_Suc_eq eval_nat_numeral)
qed

lemma kinematic_entry_ok:
  assumes len: "i + 44 \<le> length m"
    and ident: "stoi lib (m ! i) = Some ident"
    and vals: "\<forall>k. 1 \<le> k \<and> k < 44 \<longrightarrow> stod lib (m ! (i + k)) = Some (a k)"
    and H: "length H = 4" "\<forall>j<3. length (H ! j) = 4" "H ! 3 = [0, 0, 0, 1]"
  shows "kinematic_entry lib m i H = Inr (fst (snd (kin_tuple lib ident a)), kin_tuple lib ident a)"
proof -
  have at: "stod_at lib m (i + k) = Inr (a k)" if "1 \<le> k" "k < 44" for k
    using that vals len by (simp add: stod_at_ok)
  have q: "read_quaternion lib m i = Inr \<lparr>qw = a 1, qx = a 2, qy = a 3, qz = a 4\<rparr>"
    by (simp only: read_quaternion_def bind_res_def at [of 1] at [of 2] at [of 3] at [of 4]
        sum.case)
  have p: "read_position lib m i = Inr [a 5, a 6, a 7]"
    by (simp only: read_position_def at [of 5] at [of 6] at [of 7] collect.simps sum.case)
  have i: "stoi_at lib m i = Inr ident"
    using len ident by (simp add: stoi_at_def)
  show ?thesis
    by (simp add: kinematic_entry_def bind_res_def i q p read_Cov_ok [OF len vals]
        set_blocks_Identity4 [OF H] Let_def)
qed

lemma read_kinematics_ok:
  assumes "length m = i + 44 * n"
    and "\<forall>e<n. stoi lib (m ! (i + 44 * e)) = Some (ids e)"
    and "\<forall>e<n. \<forall>k. 1 \<le> k \<and> k < 44 \<longrightarrow> stod lib (m ! (i + 44 * e + k)) = Some (v (44 * e + k))"
    and "length H = 4" "\<forall>j<3. length (H ! j) = 4" "H ! 3 = [0, 0, 0, 1]"
  shows "read_kinematics lib m i H acc =
           Inr (acc @ map (\<lambda>e. kin_tuple lib (ids e) (\<lambda>k. v (44 * e + k))) [0..<n])"
  using assms
proof (induction n arbitrary: i H acc ids v)
  case 0
  then show ?case
    by (simp add: read_kinematics.simps [of lib m i H acc])
next
  case (Suc n)
  let ?tup = "kin_tuple lib (ids 0) (\<lambda>k. v k)"
  have len: "i + 44 \<le> length m" "i < length m" "length m = (i + 44) + 44 * n"
    using Suc.prems(1) by simp_all
  have id0: "stoi lib (m ! i) = Some (ids 0)"
    using Suc.prems(2) by (auto dest: spec [of _ 0])
  have v0: "\<forall>k. 1 \<le> k \<and> k < 44 \<longrightarrow> stod lib (m ! (i + k)) = Some (v k)"
    using Suc.prems(3) by (auto dest: spec [of _ 0])
  have entry: "kinematic_entry lib m i H = Inr (fst (snd ?tup), ?tup)"
    using len(1) id0 v0 Suc.prems(4-6) by (rule kinematic_entry_ok)
  have shape: "length (fst (snd ?tup)) = 4" "\<forall>j<3. length (fst (snd ?tup) ! j) = 4"
    "fst (snd ?tup) ! 3 = [0, 0, 0, 1]"
    using pose_shape [of "toRotationMatrix lib (normalize lib \<lparr>qw = v 1, qx = v 2, qy = v 3, qz = v 4\<rparr>)"
            "[v 5, v 6, v 7]"]
    by simp_all
  have ids': "\<forall>e<n. stoi lib (m ! ((i + 44) + 44 * e)) = Some (ids (Suc e))"
  proof (intro allI impI)
    fix e assume "e < n"
    then have "Suc e < Suc n" by simp
    then have "stoi lib (m ! (i + 44 * Suc e)) = Some (ids (Suc e))"
      using Suc.prems(2) by blast
    then show "stoi lib (m ! ((i + 44) + 44 * e)) = Some (ids (Suc e))"
      by (simp add: add.assoc)
  qed
  have v': "\<forall>e<n. \<forall>k. 1 \<le> k \<and> k < 44 \<longrightarrow>
              stod lib (m ! ((i + 44) + 44 * e + k)) = Some (v (44 + (44 * e + k)))"
  proof (intro allI impI)
    fix e k :: nat assume "e < n" and k: "1 \<le> k \<and> k < 44"
    then have "Suc e < Suc n" by simp
    then have "stod lib (m ! (i + 44 * Suc e + k)) = Some (v (44 * Suc e + k))"
      using Suc.prems(3) k by blast
    then show "stod lib (m ! ((i + 44) + 44 * e + k)) = Some (v (44 + (44 * e + k)))"
      by (simp add: add.assoc)
  qed
  have "read_kinematics lib m i H acc =
          read_kinematics lib m (i + 44) (fst (snd ?tup)) (acc @ [?tup])"
    using len(2) by (simp add: read_kinematics.simps [of lib m i H acc] entry)
  also have "\<dots> = Inr ((acc @ [?tup]) @
                 map (\<lambda>e. kin_tuple lib (ids (Suc e)) (\<lambda>k. v (44 + (44 * e + k)))) [0..<n])"
    using Suc.IH [OF len(3) ids', of "\<lambda>k. v (44 + k)" "fst (snd ?tup)" "acc @ [?tup]"] v' shape
    by simp
  also have "\<dots> = Inr (acc @ map (\<lambda>e. kin_tuple lib (ids e) (\<lambda>k. v (44 * e + k))) [0..<Suc n])"
    by (simp only: map_upt_Suc mult_zero_right add.left_neutral mult_Suc_right add.assoc
        append_assoc append_Cons append_Nil)
  finally show ?case .
qed

lemma loop_body_KINEMATIC:
  assumes split: "boost_split line = ''KINEMATIC'' # ts # payload"
    and len: "length payload = 44 * n"
    and bound: "length (boost_split line) < 2 ^ 64"
    and ts: "stod lib ts = Some tv"
    and ids: "\<forall>e<n. stoi lib (payload ! (44 * e)) = Some (ids e)"
    and vals: "\<forall>k<length payload. k mod 44 \<noteq> 0 \<longrightarrow> stod lib (payload ! k) = Some (v k)"
  shows "loop_body lib s line =
           Inr (store_previous
                 (s\<lparr>t := tv,
                    filter_calls := filter_calls s @
                      [CorrectKinematics
                         (map (\<lambda>e. kin_tuple lib (ids e) (\<lambda>k. v (44 * e + k))) [0..<n])]\<rparr>))"
proof -
  let ?m = "''KINEMATIC'' # ts # payload"
  have lm: "length ?m = 2 + 44 * n"
    using len by simp
  have "length ?m < 2 ^ 64"
    using bound split by simp
  then have chk: "size_minus_2 ?m mod 44 = 0"
    using lm by (simp add: size_minus_2_mod_44)
  have ids': "\<forall>e<n. stoi lib (?m ! (2 + 44 * e)) = Some (ids e)"
    using ids by simp
  have vals': "\<forall>e<n. \<forall>k. 1 \<le> k \<and> k < 44 \<longrightarrow>
                 stod lib (?m ! (2 + 44 * e + k)) = Some (v (44 * e + k))"
  proof (intro allI impI)
    fix e k :: nat assume e: "e < n" and k: "1 \<le> k \<and> k < 44"
    have "44 * Suc e \<le> 44 * n"
      using e by simp
    then have "44 * e + k < 44 * n"
      using k by simp
    moreover have "(44 * e + k) mod 44 \<noteq> 0"
      using k by simp
    ultimately have "stod lib (payload ! (44 * e + k)) = Some (v (44 * e + k))"
      using vals len by simp
    then show "stod lib (?m ! (2 + 44 * e + k)) = Some (v (44 * e + k))"
      by (simp add: add.assoc)
  qed
  have I: "length Identity4 = 4" "\<forall>j<3. length (Identity4 ! j) = 4" "Identity4 ! 3 = [0, 0, 0, 1]"
    by (auto simp: Identity4_def less_Suc_eq eval_nat_numeral)
  have rk: "read_kinematics lib ?m 2 Identity4 [] =
              Inr (map (\<lambda>e. kin_tuple lib (ids e) (\<lambda>k. v (44 * e + k))) [0..<n])"
    using read_kinematics_ok [OF lm ids' vals' I, of "[]"] by simp
  show ?thesis
    using ts chk
    by (simp add: loop_body_def split handle_measurement_def handle_KINEMATIC_def rk
        bind_res_def stod_at_def)
qed


lemma all_tokens_numeric:
  "(\<forall>tok\<in>set xs. f tok \<noteq> None) \<longleftrightarrow> (\<forall>k<length xs. f (xs ! k) = Some (the (f (xs ! k))))"
  by (auto simp: all_set_conv_all_nth)









text \<open>
  C8. Under the same conditions on the line, the covariance of observation \<open>e\<close>
  is a 6 by 6 matrix whose entry in row \<open>j\<close> and column \<open>k\<close> is the number read
  from token \<open>8 + j * 6 + k\<close> of entry \<open>e\<close>, counted from the start of the
  entry.
\<close>

theorem kinematic_covariance_row_major:
  assumes "boost_split line = ''KINEMATIC'' # ts # payload"
    and "length payload = 44 * n"
    and "length (boost_split line) < 2 ^ 64"
    and "stod lib ts = Some tv"
    and "\<forall>e<n. stoi lib (payload ! (44 * e)) = Some (ids e)"
    and "\<forall>k<length payload. k mod 44 \<noteq> 0 \<longrightarrow> stod lib (payload ! k) = Some (v k)"
  shows "\<exists>s' obs.
           loop_body lib s line = Inr s' \<and>
           filter_calls s' = filter_calls s @ [CorrectKinematics obs] \<and>
           length obs = n \<and>
           (\<forall>e<n. \<forall>j<6. \<forall>k<6.
              length (snd (snd (obs ! e))) = 6 \<and>
              length (snd (snd (obs ! e)) ! j) = 6 \<and>
              snd (snd (obs ! e)) ! j ! k = v (44 * e + 8 + j * 6 + k))"
proof -
  let ?obs = "map (\<lambda>e. kin_tuple lib (ids e) (\<lambda>k. v (44 * e + k))) [0..<n]"
  have "loop_body lib s line =
          Inr (store_previous
                (s\<lparr>t := tv, filter_calls := filter_calls s @ [CorrectKinematics ?obs]\<rparr>))"
    using assms by (rule loop_body_KINEMATIC)
  moreover have "filter_calls (store_previous
                (s\<lparr>t := tv, filter_calls := filter_calls s @ [CorrectKinematics ?obs]\<rparr>)) =
                filter_calls s @ [CorrectKinematics ?obs]"
    by (simp add: store_previous_def)
  moreover have "length ?obs = n"
    by simp
  moreover have "\<forall>e<n. \<forall>j<6. \<forall>k<6.
              length (snd (snd (?obs ! e))) = 6 \<and>
              length (snd (snd (?obs ! e)) ! j) = 6 \<and>
              snd (snd (?obs ! e)) ! j ! k = v (44 * e + 8 + j * 6 + k)"
    by (simp add: add.assoc)
  ultimately show ?thesis
    by blast
qed

text \<open>With the covariance tokens 0 to 35, row 2 and column 3 hold 15.\<close>

theorem kinematic_covariance_row_major_witness:
  "\<exists>s' obs.
     loop_body exact_library initial
       (''KINEMATIC 0.5 3 1 0 0 0 1 2 3 0 1 2 3 4 5 6 7 8 9 10 11 12 '' @
       ''13 14 15 16 17 18 19 20 21 22 23 24 25 26 27 28 29 30 31 32 '' @
       ''33 34 35'') = Inr s' \<and>
     filter_calls s' = [CorrectKinematics obs] \<and>
     snd (snd (obs ! 0)) ! 2 ! 3 = 15"
proof -
  let ?line = "''KINEMATIC 0.5 3 1 0 0 0 1 2 3 0 1 2 3 4 5 6 7 8 9 10 11 12 '' @
               ''13 14 15 16 17 18 19 20 21 22 23 24 25 26 27 28 29 30 31 32 '' @
               ''33 34 35''"
  let ?P = "boost_split
             (''3 1 0 0 0 1 2 3 0 1 2 3 4 5 6 7 8 9 10 11 12 13 14 15 16 17 '' @
              ''18 19 20 21 22 23 24 25 26 27 28 29 30 31 32 33 34 35'')"
  have split: "boost_split ?line = ''KINEMATIC'' # ''0.5'' # ?P"
    by simp
  have len: "length ?P = 44 * 1"
    by simp
  have bound: "length (boost_split ?line) < 2 ^ 64"
    unfolding split by simp
  have ts: "stod exact_library ''0.5'' = Some (1 / 2)"
    by (simp add: dec_defs)
  have ids: "\<forall>e<1. stoi exact_library (?P ! (44 * e)) = Some 3"
    by (simp add: dec_defs)
  have "\<forall>tok\<in>set ?P. stod exact_library tok \<noteq> None"
    by (simp add: dec_defs)
  then have vals: "\<forall>k<length ?P. k mod 44 \<noteq> 0 \<longrightarrow>
                     stod exact_library (?P ! k) = Some (the (stod exact_library (?P ! k)))"
    unfolding all_tokens_numeric by blast
  let ?v = "\<lambda>k. the (stod exact_library (?P ! k))"
  obtain s' obs where
    run: "loop_body exact_library initial ?line = Inr s'"
    and calls: "filter_calls s' = filter_calls initial @ [CorrectKinematics obs]"
    and cov: "\<forall>e<1. \<forall>j<6. \<forall>k<6.
              length (snd (snd (obs ! e))) = 6 \<and>
              length (snd (snd (obs ! e)) ! j) = 6 \<and>
              snd (snd (obs ! e)) ! j ! k = ?v (44 * e + 8 + j * 6 + k)"
    using kinematic_covariance_row_major [OF split len bound ts ids vals, of initial]
    by blast
  have "snd (snd (obs ! 0)) ! 2 ! 3 = ?v (44 * 0 + 8 + 2 * 6 + 3)"
    using cov by simp
  also have "\<dots> = 15"
    by (simp add: dec_defs)
  finally show ?thesis
    using run calls by (auto simp: initial_def)
qed

end
